theory Spec2Isabelle
  imports Complex_Main
begin

section \<open>Occlusion sensitivity: the data model\<close>

text \<open>
  The development follows \<^verbatim>\<open>src/tf_explain/core/occlusion_sensitivity.py\<close>.
  Numeric arrays are nested lists; array entries and confidence scores are
  idealised as real numbers. An image is a list of rows, a row a list of
  pixels, a pixel a list of channel values (height, width, channels).
\<close>

datatype error = ZeroDivisionError | IndexError | CvError

type_synonym image = "real list list list"

text \<open>
  A model is the collaborator behind \<^verbatim>\<open>model.predict(batch, batch_size=n)\<close>. It may
  carry hidden state of its own (type \<open>'s\<close>); a call returns one vector of per-class
  confidences per image together with the next hidden state.
\<close>

type_synonym 's model = "'s \<Rightarrow> image list \<Rightarrow> nat \<Rightarrow> real list list \<times> 's"

text \<open>
  The run of a computation threads the model's hidden state and records every inference
  call that was made: the batch handed to the model and the \<^verbatim>\<open>batch_size\<close> argument.
\<close>

record 's run =
  model_state :: 's
  calls :: "(image list \<times> nat) list"

text \<open>The class \<^verbatim>\<open>OcclusionSensitivity\<close>: its only field is set by \<^verbatim>\<open>__init__\<close>.\<close>

record OcclusionSensitivity =
  batch_size :: "nat option"

definition init :: "nat option \<Rightarrow> OcclusionSensitivity" where
  "init bs = \<lparr>batch_size = bs\<rparr>"

text \<open>\<^verbatim>\<open>image.shape[0]\<close> and \<^verbatim>\<open>image.shape[1]\<close>.\<close>

definition shape0 :: "'a list \<Rightarrow> nat" where
  "shape0 a = length a"

definition shape1 :: "'a list list \<Rightarrow> nat" where
  "shape1 a = (case a of [] \<Rightarrow> 0 | r # _ \<Rightarrow> length r)"

text \<open>A nested list is an array of shape \<open>(h, w)\<close> in its first two axes.\<close>

definition has_shape :: "'a list list \<Rightarrow> nat \<Rightarrow> nat \<Rightarrow> bool" where
  "has_shape a h w \<longleftrightarrow> length a = h \<and> list_all (\<lambda>r. length r = w) a"

section \<open>The operations of \<^verbatim>\<open>get_sensitivity_map\<close>\<close>

text \<open>
  \<^verbatim>\<open>math.ceil(n / patch_size)\<close>: true division, which raises on a zero divisor, then the
  ceiling. Patch sizes and class indices are natural numbers here; negative Python
  integers are outside the model.
\<close>

definition ceil_div :: "nat \<Rightarrow> nat \<Rightarrow> error + nat" where
  "ceil_div n patch_size =
     (if patch_size = 0 then Inl ZeroDivisionError
      else Inr (nat \<lceil>real n / real patch_size\<rceil>))"

text \<open>\<^verbatim>\<open>np.zeros((rows, cols))\<close>.\<close>

definition zeros :: "nat \<Rightarrow> nat \<Rightarrow> real list list" where
  "zeros rows cols = replicate rows (replicate cols 0)"

text \<open>
  The list comprehension of lines 85-93: the outer generator runs \<^verbatim>\<open>index_x\<close> over the
  second axis of the map, the inner one \<^verbatim>\<open>index_y\<close> over the first axis.
\<close>

definition coordinates :: "nat \<Rightarrow> nat \<Rightarrow> (nat \<times> nat) list" where
  "coordinates rows cols =
     concat (map (\<lambda>index_x. map (\<lambda>index_y. (index_y, index_x)) [0..<rows]) [0..<cols])"

text \<open>
  \<^verbatim>\<open>range(start, stop, step)\<close> for a positive step. A zero step never reaches this point:
  the division by \<^verbatim>\<open>patch_size\<close> has raised before.
\<close>

function py_range :: "nat \<Rightarrow> nat \<Rightarrow> nat \<Rightarrow> nat list" where
  "py_range start stop step =
     (if step = 0 \<or> stop \<le> start then []
      else start # py_range (start + step) stop step)"
  by pat_completeness auto
termination
  by (relation "measure (\<lambda>(start, stop, step). stop - start)") auto

declare py_range.simps [simp del]

text \<open>\<^verbatim>\<open>model.predict(batch, batch_size=n)\<close>: the call is recorded, the hidden state moves on.\<close>

definition predict ::
  "'s model \<Rightarrow> image list \<Rightarrow> nat \<Rightarrow> 's run \<Rightarrow> real list list \<times> 's run" where
  "predict m batch n w =
     (case m (model_state w) batch n of
        (out, s') \<Rightarrow> (out, \<lparr>model_state = s', calls = calls w @ [(batch, n)]\<rparr>))"

text \<open>\<^verbatim>\<open>predictions[0][class_index]\<close>, with Python's IndexError written out.\<close>

definition target_confidence :: "real list list \<Rightarrow> nat \<Rightarrow> error + real" where
  "target_confidence predictions class_index =
     (case predictions of
        [] \<Rightarrow> Inl IndexError
      | v # _ \<Rightarrow> if class_index < length v then Inr (v ! class_index) else Inl IndexError)"

text \<open>
  Modelled from the spec: the "uniform grey value" written by the patch generator
  \<^verbatim>\<open>apply_grey_patch\<close> of \<^verbatim>\<open>tf_explain.utils.image\<close>, which is imported but not
  part of the sources at hand. The spec gives no number; the middle of the 0..255 range is
  taken. No property below depends on the number.
\<close>

definition grey_value :: real where
  "grey_value = 127.5"

text \<open>
  Modelled from the spec: the "square region" of a patch given by its "top-left
  coordinates" and the patch size. Position (row \<open>r\<close>, column \<open>c\<close>) lies in it when
  \<open>r\<close> is among the \<open>patch_size\<close> rows from \<open>top_left_y\<close> and \<open>c\<close> among the
  \<open>patch_size\<close> columns from \<open>top_left_x\<close>: the x coordinate is the horizontal one
  (it counts columns, the second axis of the image), the y coordinate the vertical one
  (it counts rows, the first axis).
\<close>

definition in_patch :: "nat \<Rightarrow> nat \<Rightarrow> nat \<Rightarrow> nat \<Rightarrow> nat \<Rightarrow> bool" where
  "in_patch top_left_x top_left_y patch_size r c \<longleftrightarrow>
     top_left_y \<le> r \<and> r < top_left_y + patch_size \<and>
     top_left_x \<le> c \<and> c < top_left_x + patch_size"

text \<open>
  Modelled from the spec: \<^verbatim>\<open>apply_grey_patch\<close> of \<^verbatim>\<open>tf_explain.utils.image\<close>, which is
  imported but not part of the sources at hand. The spec: it "accepts an image, top-left
  coordinates, and a patch size; returns a copy of the image with that square region
  overwritten with a uniform grey value", and boundary patches are "clipped at the
  boundary": only the positions of the square that exist in the image are overwritten,
  in every channel.
\<close>

definition apply_grey_patch :: "image \<Rightarrow> nat \<Rightarrow> nat \<Rightarrow> nat \<Rightarrow> image" where
  "apply_grey_patch img top_left_x top_left_y patch_size =
     map (\<lambda>(r, row).
            map (\<lambda>(c, pixel).
                   if in_patch top_left_x top_left_y patch_size r c
                   then map (\<lambda>_. grey_value) pixel else pixel)
                (enumerate 0 row))
         (enumerate 0 img)"

text \<open>
  The sweep of lines 99-104. The outer loop runs \<^verbatim>\<open>top_left_y\<close> over
  \<^verbatim>\<open>range(0, image.shape[1], patch_size)\<close>, the inner loop runs \<^verbatim>\<open>top_left_x\<close> over
  \<^verbatim>\<open>range(0, image.shape[0], patch_size)\<close>; each step patches the image, asks the model
  about a batch of that one image and appends the target class's confidence. The
  enumeration indices of the two loops are never used; the progress bar has no effect on
  the result.
\<close>

fun sweep_x ::
  "'s model \<Rightarrow> image \<Rightarrow> nat \<Rightarrow> nat \<Rightarrow> nat \<Rightarrow> nat list \<Rightarrow> real list \<times> 's run
     \<Rightarrow> error + (real list \<times> 's run)" where
  "sweep_x m img class_index patch_size top_left_y [] acc = Inr acc"
| "sweep_x m img class_index patch_size top_left_y (top_left_x # xs) acc =
     (case predict m [apply_grey_patch img top_left_x top_left_y patch_size] 1 (snd acc) of
        (out, w') \<Rightarrow>
          (case target_confidence out class_index of
             Inl e \<Rightarrow> Inl e
           | Inr prediction \<Rightarrow>
               sweep_x m img class_index patch_size top_left_y xs
                 (fst acc @ [prediction], w')))"

fun sweep_y ::
  "'s model \<Rightarrow> image \<Rightarrow> nat \<Rightarrow> nat \<Rightarrow> nat list \<Rightarrow> nat list \<Rightarrow> real list \<times> 's run
     \<Rightarrow> error + (real list \<times> 's run)" where
  "sweep_y m img class_index patch_size [] xs acc = Inr acc"
| "sweep_y m img class_index patch_size (top_left_y # ys) xs acc =
     (case sweep_x m img class_index patch_size top_left_y xs acc of
        Inl e \<Rightarrow> Inl e
      | Inr acc' \<Rightarrow> sweep_y m img class_index patch_size ys xs acc')"

definition target_class_predictions ::
  "'s model \<Rightarrow> image \<Rightarrow> nat \<Rightarrow> nat \<Rightarrow> 's run \<Rightarrow> error + (real list \<times> 's run)" where
  "target_class_predictions m img class_index patch_size w =
     sweep_y m img class_index patch_size
       (py_range 0 (shape1 img) patch_size)
       (py_range 0 (shape0 img) patch_size) ([], w)"

text \<open>
  \<^verbatim>\<open>sensitivity_map[index_y, index_x] = value\<close>: numpy raises IndexError out of range.
\<close>

definition set_cell :: "real list list \<Rightarrow> nat \<Rightarrow> nat \<Rightarrow> real \<Rightarrow> error + real list list" where
  "set_cell sm index_y index_x v =
     (if index_y < length sm \<and> index_x < length (sm ! index_y)
      then Inr (sm[index_y := (sm ! index_y)[index_x := v]])
      else Inl IndexError)"

text \<open>
  The delta-recording pass of lines 107-110, over the zipped list: one assignment per
  element. Next to the map it returns the cells it has assigned, in the order of the
  assignments; the source keeps no such record, it is there for the properties below.
\<close>

fun record_deltas ::
  "real \<Rightarrow> ((nat \<times> nat) \<times> real) list \<Rightarrow> real list list
     \<Rightarrow> error + (real list list \<times> (nat \<times> nat) list)" where
  "record_deltas base_confidence [] sm = Inr (sm, [])"
| "record_deltas base_confidence (((index_y, index_x), confidence) # rest) sm =
     (case set_cell sm index_y index_x (base_confidence - confidence) of
        Inl e \<Rightarrow> Inl e
      | Inr sm' \<Rightarrow>
          (case record_deltas base_confidence rest sm' of
             Inl e \<Rightarrow> Inl e
           | Inr (sm'', assigned) \<Rightarrow> Inr (sm'', (index_y, index_x) # assigned)))"

text \<open>
  Lines 78-110 of \<^verbatim>\<open>get_sensitivity_map\<close>: the sensitivity map as it stands just before
  the final resize, with the run after the last inference.
\<close>

definition sensitivity_grid ::
  "OcclusionSensitivity \<Rightarrow> 's model \<Rightarrow> image \<Rightarrow> nat \<Rightarrow> nat \<Rightarrow> 's run
     \<Rightarrow> error + (real list list \<times> 's run)" where
  "sensitivity_grid self m img class_index patch_size w =
     (case ceil_div (shape0 img) patch_size of
        Inl e \<Rightarrow> Inl e
      | Inr rows \<Rightarrow>
     (case ceil_div (shape1 img) patch_size of
        Inl e \<Rightarrow> Inl e
      | Inr cols \<Rightarrow>
     (case predict m [img] 1 w of
        (out, w1) \<Rightarrow>
     (case target_confidence out class_index of
        Inl e \<Rightarrow> Inl e
      | Inr base_confidence \<Rightarrow>
     (case target_class_predictions m img class_index patch_size w1 of
        Inl e \<Rightarrow> Inl e
      | Inr (predictions, w2) \<Rightarrow>
     (case record_deltas base_confidence
             (zip (coordinates rows cols) predictions) (zeros rows cols) of
        Inl e \<Rightarrow> Inl e
      | Inr (sm, assigned) \<Rightarrow> Inr (sm, w2)))))))"

text \<open>
  \<^verbatim>\<open>cv2.resize(src, dsize)\<close> with the library's default bilinear interpolation, over the
  reals. OpenCV reads \<^verbatim>\<open>dsize\<close> as (width, height): the result has \<^verbatim>\<open>dsize[1]\<close> rows
  and \<^verbatim>\<open>dsize[0]\<close> columns. A destination index \<open>d\<close> is mapped to the source position
  \<open>(d + 1/2) * ssize / dsize - 1/2\<close>; its two neighbours are clamped to the array and
  weighted by the fractional part. An empty source or an empty target size is rejected.
\<close>

definition clamp_index :: "int \<Rightarrow> nat \<Rightarrow> nat" where
  "clamp_index i ssize = nat (max 0 (min i (int ssize - 1)))"

definition src_coord :: "nat \<Rightarrow> nat \<Rightarrow> nat \<Rightarrow> nat \<times> nat \<times> real" where
  "src_coord d ssize dsize =
     (let f = (real d + 1 / 2) * (real ssize / real dsize) - 1 / 2;
          s = \<lfloor>f\<rfloor>
      in (clamp_index s ssize, clamp_index (s + 1) ssize, f - real_of_int s))"

definition interpolate :: "real list list \<Rightarrow> nat \<times> nat \<times> real \<Rightarrow> nat \<times> nat \<times> real \<Rightarrow> real" where
  "interpolate src cy cx =
     (case cy of (y0, y1, fy) \<Rightarrow> case cx of (x0, x1, fx) \<Rightarrow>
        (1 - fy) * ((1 - fx) * src ! y0 ! x0 + fx * src ! y0 ! x1)
        + fy * ((1 - fx) * src ! y1 ! x0 + fx * src ! y1 ! x1))"

definition cv2_resize :: "real list list \<Rightarrow> nat \<times> nat \<Rightarrow> error + real list list" where
  "cv2_resize src dsize =
     (case dsize of (dwidth, dheight) \<Rightarrow>
        if shape0 src = 0 \<or> shape1 src = 0 \<or> dwidth = 0 \<or> dheight = 0 then Inl CvError
        else Inr (map (\<lambda>dy. map (\<lambda>dx.
                         interpolate src (src_coord dy (shape0 src) dheight)
                                         (src_coord dx (shape1 src) dwidth))
                       [0..<dwidth])
                  [0..<dheight]))"

text \<open>
  \<^verbatim>\<open>get_sensitivity_map\<close>: the map of lines 78-110, resized with
  \<^verbatim>\<open>image.shape[0:2]\<close>, the pair (height, width), as target size.
\<close>

definition get_sensitivity_map ::
  "OcclusionSensitivity \<Rightarrow> 's model \<Rightarrow> image \<Rightarrow> nat \<Rightarrow> nat \<Rightarrow> 's run
     \<Rightarrow> error + (real list list \<times> 's run)" where
  "get_sensitivity_map self m img class_index patch_size w =
     (case sensitivity_grid self m img class_index patch_size w of
        Inl e \<Rightarrow> Inl e
      | Inr (sm, w') \<Rightarrow>
          (case cv2_resize sm (shape0 img, shape1 img) of
             Inl e \<Rightarrow> Inl e
           | Inr resized \<Rightarrow> Inr (resized, w')))"

section \<open>\<^verbatim>\<open>explain\<close>\<close>

text \<open>The list comprehension of lines 46-51: one sensitivity map per image, in order.\<close>

fun sensitivity_maps ::
  "OcclusionSensitivity \<Rightarrow> 's model \<Rightarrow> image list \<Rightarrow> nat \<Rightarrow> nat \<Rightarrow> 's run
     \<Rightarrow> error + (real list list list \<times> 's run)" where
  "sensitivity_maps self m [] class_index patch_size w = Inr ([], w)"
| "sensitivity_maps self m (img # images) class_index patch_size w =
     (case get_sensitivity_map self m img class_index patch_size w of
        Inl e \<Rightarrow> Inl e
      | Inr (sm, w') \<Rightarrow>
          (case sensitivity_maps self m images class_index patch_size w' of
             Inl e \<Rightarrow> Inl e
           | Inr (sms, w'') \<Rightarrow> Inr (sm # sms, w'')))"

text \<open>
  \<^verbatim>\<open>explain\<close>. The display collaborators \<^verbatim>\<open>heatmap_display\<close> and \<^verbatim>\<open>grid_display\<close> of
  \<^verbatim>\<open>tf_explain.utils.display\<close> are not part of the sources at hand and are taken as
  parameters. Printing \<^verbatim>\<open>sensitivity_maps[0]\<close> raises IndexError on an empty batch.
\<close>

definition explain ::
  "OcclusionSensitivity \<Rightarrow> image list \<times> 'l \<Rightarrow> 's model \<Rightarrow> nat \<Rightarrow> nat \<Rightarrow> 'c
     \<Rightarrow> (real list list \<Rightarrow> image \<Rightarrow> 'c \<Rightarrow> 'h) \<Rightarrow> ('h list \<Rightarrow> 'g) \<Rightarrow> 's run
     \<Rightarrow> error + ('g \<times> 's run)" where
  "explain self validation_data m class_index patch_size colormap
           heatmap_display grid_display w =
     (case validation_data of (images, _) \<Rightarrow>
        (case sensitivity_maps self m images class_index patch_size w of
           Inl e \<Rightarrow> Inl e
         | Inr (sms, w') \<Rightarrow>
             if sms = [] then Inl IndexError
             else Inr (grid_display
                         (map (\<lambda>(heatmap, img). heatmap_display heatmap img colormap)
                              (zip sms images)), w')))"

section \<open>Notions used by the properties\<close>

text \<open>
  A model is deterministic when its answer does not depend on its hidden state: there is a
  function \<open>f\<close> of the batch and the batch size alone that gives every answer.
\<close>

definition deterministic :: "'s model \<Rightarrow> (image list \<Rightarrow> nat \<Rightarrow> real list list) \<Rightarrow> bool" where
  "deterministic m f \<longleftrightarrow> (\<forall>s batch n. fst (m s batch n) = f batch n)"

text \<open>
  The model scores the target class: asked about a batch of one image with batch size 1 it
  returns a row that has an entry at \<open>class_index\<close>, so that
  \<^verbatim>\<open>[0][class_index]\<close> does not raise.
\<close>

definition scores_class :: "'s model \<Rightarrow> nat \<Rightarrow> bool" where
  "scores_class m class_index \<longleftrightarrow>
     (\<forall>s img. \<exists>v. target_confidence (fst (m s [img] 1)) class_index = Inr v)"

text \<open>
  The model's confidence for the target class is a function \<open>c\<close> of the image: whatever
  the hidden state, a batch of the one image \<open>img\<close> with batch size 1 is answered with
  \<open>c img\<close> at \<open>class_index\<close>.
\<close>

definition gives_confidence :: "'s model \<Rightarrow> nat \<Rightarrow> (image \<Rightarrow> real) \<Rightarrow> bool" where
  "gives_confidence m class_index c \<longleftrightarrow>
     (\<forall>s img. target_confidence (fst (m s [img] 1)) class_index = Inr (c img))"

text \<open>
  What a caller observes of a computation: the value returned or the error raised,
  without the run behind it.
\<close>

definition outcome :: "error + ('a \<times> 'b) \<Rightarrow> error + 'a" where
  "outcome r = (case r of Inl e \<Rightarrow> Inl e | Inr (v, w) \<Rightarrow> Inr v)"

text \<open>The inference call of one sweep step, as it is recorded in the run.\<close>

definition patch_call :: "image \<Rightarrow> nat \<Rightarrow> nat \<Rightarrow> nat \<Rightarrow> image list \<times> nat" where
  "patch_call img patch_size top_left_y top_left_x =
     ([apply_grey_patch img top_left_x top_left_y patch_size], 1)"

text \<open>
  What the specification asks for in a cell: the image in which the square region of cell
  \<open>(index_y, index_x)\<close> of the map, rows from \<open>index_y * patch_size\<close> and columns
  from \<open>index_x * patch_size\<close>, is replaced by the grey patch.
\<close>

definition cell_region_occluded :: "image \<Rightarrow> nat \<Rightarrow> nat \<Rightarrow> nat \<Rightarrow> image" where
  "cell_region_occluded img patch_size index_y index_x =
     apply_grey_patch img (index_x * patch_size) (index_y * patch_size) patch_size"

text \<open>The image with every pixel replaced by grey.\<close>

definition fully_occluded :: "image \<Rightarrow> image" where
  "fully_occluded img = map (map (map (\<lambda>_. grey_value))) img"



section \<open>Concrete inputs\<close>

text \<open>A single-channel image of constant value.\<close>

definition uniform_image :: "nat \<Rightarrow> nat \<Rightarrow> real \<Rightarrow> image" where
  "uniform_image h w v = replicate h (replicate w [v])"

text \<open>
  A one-class model that answers every image with the same confidence; its hidden state
  counts the calls.
\<close>

definition constant_model :: "real \<Rightarrow> nat model" where
  "constant_model c s batch n = (map (\<lambda>_. [c]) batch, Suc s)"

text \<open>
  A one-class model whose confidence is the first channel of the pixel in row \<open>r\<close>,
  column \<open>c\<close>, scaled to the unit interval (zero when the image has no such pixel); its
  hidden state counts the calls.
\<close>

definition pixel_confidence :: "nat \<Rightarrow> nat \<Rightarrow> image \<Rightarrow> real" where
  "pixel_confidence r c img =
     (if r < length img \<and> c < length (img ! r) \<and> 0 < length (img ! r ! c)
      then img ! r ! c ! 0 / 255 else 0)"

definition pixel_model :: "nat \<Rightarrow> nat \<Rightarrow> nat model" where
  "pixel_model r c s batch n = (map (\<lambda>img. [pixel_confidence r c img]) batch, Suc s)"

definition fresh_run :: "nat run" where
  "fresh_run = \<lparr>model_state = 0, calls = []\<rparr>"

section \<open>Auxiliary facts\<close>

subsection \<open>Ceilings and ranges\<close>

lemma div_round_up:
  assumes "0 < (p::nat)"
  shows "(n + p - 1) div p = (if n mod p = 0 then n div p else Suc (n div p))"
proof -
  define r where "r = n mod p"
  define q where "q = n div p"
  have n: "n = r + q * p" by (simp add: r_def q_def)
  have rp: "r < p" using assms by (simp add: r_def)
  have "n + p - 1 = (r + p - 1) + q * p" using n assms by linarith
  then have "(n + p - 1) div p = (r + p - 1) div p + q"
    using assms by (simp only: div_mult_self1 div_mult_self3) 
  moreover have "(r + p - 1) div p = (if r = 0 then 0 else 1)"
  proof (cases "r = 0")
    case True
    then show ?thesis using assms by simp
  next
    case False
    then have e: "r + p - 1 = (r - 1) + p" by linarith
    have l: "r - 1 < p" using rp by linarith
    have "((r - 1) + p) div p = Suc ((r - 1) div p)" using assms by (simp only: div_add_self2) 
    also have "(r - 1) div p = 0" using l by (rule div_less)
    finally show ?thesis using False e by simp
  qed
  ultimately show ?thesis by (simp add: r_def q_def)
qed


lemma ceiling_nat_div:
  assumes "0 < p"
  shows "nat \<lceil>real n / real p\<rceil> = (n + p - 1) div p"
proof -
  have m: "int n mod int p = int (n mod p)" by (simp only: zmod_int)
  have d: "int n div int p = int (n div p)" by (simp only: zdiv_int)
  have "\<lceil>real n / real p\<rceil> = \<lceil>real_of_int (int n) / real_of_int (int p)\<rceil>" by simp
  also have "\<dots> = - ((- int n) div int p)" by (rule ceiling_divide_eq_div)
  also have "\<dots> = (if int n mod int p = 0 then int n div int p else int n div int p + 1)"
    using assms by (simp only: zdiv_zminus1_eq_if) simp
  also have "\<dots> = int (if n mod p = 0 then n div p else Suc (n div p))"
    unfolding m d by simp
  finally have "nat \<lceil>real n / real p\<rceil> = (if n mod p = 0 then n div p else Suc (n div p))"
    by (simp only: nat_int)
  then show ?thesis using div_round_up [OF assms, of n] by simp
qed

lemma range_count_step:
  assumes "0 < (step::nat)" "start < stop"
  shows "(stop - start + step - 1) div step
           = Suc ((stop - (start + step) + step - 1) div step)"
proof (cases "start + step \<le> stop")
  case True
  then have "stop - start + step - 1 = (stop - (start + step) + step - 1) + step"
    using assms by linarith
  then show ?thesis using assms by (simp only: div_add_self2)
next
  case False
  then have z: "stop - (start + step) = 0" by simp
  have e: "stop - start + step - 1 = (stop - start - 1) + step" using assms by linarith
  have l: "stop - start - 1 < step" using False assms by linarith
  have "((stop - start - 1) + step) div step = Suc ((stop - start - 1) div step)"
    using assms by (simp only: div_add_self2)
  also have "(stop - start - 1) div step = 0" using l by (rule div_less)
  finally have "(stop - start + step - 1) div step = Suc 0" using e by simp
  moreover have "(stop - (start + step) + step - 1) div step = 0"
    unfolding z using assms by simp
  ultimately show ?thesis by simp
qed


lemma upt_shift:
  "start # map (\<lambda>k. start + step + k * step) [0..<N]
     = map (\<lambda>k. start + k * (step::nat)) [0..<Suc N]"
proof -
  have "[0..<Suc N] = 0 # map Suc [0..<N]"
    by (simp only: map_Suc_upt upt_conv_Cons [of 0 "Suc N"] zero_less_Suc if_True)
  then show ?thesis by (simp add: o_def add.assoc)
qed

lemma py_range_eq:
  "0 < step \<Longrightarrow> py_range start stop step
     = map (\<lambda>k. start + k * step) [0..<(stop - start + step - 1) div step]"
proof (induction start stop step rule: py_range.induct)
  case (1 start stop step)
  show ?case
  proof (cases "stop \<le> start")
    case True
    with 1 show ?thesis by (simp add: py_range.simps)
  next
    case False
    then have lt: "start < stop" by simp
    have ih: "py_range (start + step) stop step
        = map (\<lambda>k. start + step + k * step) [0..<(stop - (start + step) + step - 1) div step]"
      using 1 False by simp
    have "py_range start stop step = start # py_range (start + step) stop step"
      using 1(2) False by (subst py_range.simps) simp
    also have "\<dots> = map (\<lambda>k. start + k * step) [0..<Suc ((stop - (start + step) + step - 1) div step)]"
      unfolding ih by (simp only: upt_shift)
    finally show ?thesis using range_count_step [OF 1(2) lt] by simp
  qed
qed

lemma py_range_0:
  "0 < p \<Longrightarrow> py_range 0 n p = map (\<lambda>k. k * p) [0..<nat \<lceil>real n / real p\<rceil>]"
  by (simp add: py_range_eq ceiling_nat_div)

subsection \<open>The sweep\<close>

lemma predict_fst: "fst (predict m batch n w) = fst (m (model_state w) batch n)"
  by (simp add: predict_def split: prod.splits)

lemma predict_calls: "calls (snd (predict m batch n w)) = calls w @ [(batch, n)]"
  by (simp add: predict_def split: prod.splits)

lemma sweep_x_trace:
  "sweep_x m img ci p y xs acc = Inr acc' \<Longrightarrow>
     length (fst acc') = length (fst acc) + length xs \<and>
     calls (snd acc') = calls (snd acc) @ map (patch_call img p y) xs"
proof (induction xs arbitrary: acc)
  case Nil
  then show ?case by simp
next
  case (Cons x xs)
  obtain out w' where pr: "predict m [apply_grey_patch img x y p] 1 (snd acc) = (out, w')"
    by (cases "predict m [apply_grey_patch img x y p] 1 (snd acc)")
  from Cons.prems pr obtain c where
    tc: "target_confidence out ci = Inr c" and
    rec: "sweep_x m img ci p y xs (fst acc @ [c], w') = Inr acc'"
    by (auto split: sum.splits)
  have cw: "calls w' = calls (snd acc) @ [patch_call img p y x]"
    using predict_calls [of m "[apply_grey_patch img x y p]" 1 "snd acc"] pr
    by (simp add: patch_call_def)
  from Cons.IH [OF rec] cw show ?case by simp
qed

lemma sweep_x_total:
  assumes "scores_class m ci"
  shows "\<exists>acc'. sweep_x m img ci p y xs acc = Inr acc'"
proof (induction xs arbitrary: acc)
  case Nil
  then show ?case by simp
next
  case (Cons x xs)
  obtain out w' where pr: "predict m [apply_grey_patch img x y p] 1 (snd acc) = (out, w')"
    by (cases "predict m [apply_grey_patch img x y p] 1 (snd acc)")
  have "out = fst (m (model_state (snd acc)) [apply_grey_patch img x y p] 1)"
    using predict_fst [of m "[apply_grey_patch img x y p]" 1 "snd acc"] pr by simp
  with assms obtain c where tc: "target_confidence out ci = Inr c"
    unfolding scores_class_def by blast
  from Cons.IH [of "(fst acc @ [c], w')"] pr tc show ?case by simp
qed

lemma sweep_x_confidence:
  assumes "gives_confidence m ci c"
  shows "\<exists>w'. sweep_x m img ci p y xs acc
           = Inr (fst acc @ map (\<lambda>x. c (apply_grey_patch img x y p)) xs, w')"
proof (induction xs arbitrary: acc)
  case Nil
  then show ?case by (cases acc) simp
next
  case (Cons x xs)
  obtain out w' where pr: "predict m [apply_grey_patch img x y p] 1 (snd acc) = (out, w')"
    by (cases "predict m [apply_grey_patch img x y p] 1 (snd acc)")
  have "out = fst (m (model_state (snd acc)) [apply_grey_patch img x y p] 1)"
    using predict_fst [of m "[apply_grey_patch img x y p]" 1 "snd acc"] pr by simp
  with assms have tc: "target_confidence out ci = Inr (c (apply_grey_patch img x y p))"
    unfolding gives_confidence_def by simp
  from Cons.IH [of "(fst acc @ [c (apply_grey_patch img x y p)], w')"] pr tc
  show ?case by simp
qed

lemma sweep_y_trace:
  "sweep_y m img ci p ys xs acc = Inr acc' \<Longrightarrow>
     length (fst acc') = length (fst acc) + length ys * length xs \<and>
     calls (snd acc') = calls (snd acc) @ concat (map (\<lambda>y. map (patch_call img p y) xs) ys)"
proof (induction ys arbitrary: acc)
  case Nil
  then show ?case by simp
next
  case (Cons y ys)
  from Cons.prems obtain acc1 where
    inner: "sweep_x m img ci p y xs acc = Inr acc1" and
    rec: "sweep_y m img ci p ys xs acc1 = Inr acc'"
    by (auto split: sum.splits)
  from sweep_x_trace [OF inner] Cons.IH [OF rec] show ?case by simp
qed

lemma sweep_y_total:
  assumes "scores_class m ci"
  shows "\<exists>acc'. sweep_y m img ci p ys xs acc = Inr acc'"
proof (induction ys arbitrary: acc)
  case Nil
  then show ?case by simp
next
  case (Cons y ys)
  from sweep_x_total [OF assms] obtain acc1 where
    "sweep_x m img ci p y xs acc = Inr acc1" by blast
  with Cons.IH [of acc1] show ?case by simp
qed

lemma sweep_y_confidence:
  assumes "gives_confidence m ci c"
  shows "\<exists>w'. sweep_y m img ci p ys xs acc
           = Inr (fst acc @ concat (map (\<lambda>y. map (\<lambda>x. c (apply_grey_patch img x y p)) xs) ys), w')"
proof (induction ys arbitrary: acc)
  case Nil
  then show ?case by (cases acc) simp
next
  case (Cons y ys)
  from sweep_x_confidence [OF assms] obtain w1 where
    "sweep_x m img ci p y xs acc
       = Inr (fst acc @ map (\<lambda>x. c (apply_grey_patch img x y p)) xs, w1)" by blast
  with Cons.IH [of "(fst acc @ map (\<lambda>x. c (apply_grey_patch img x y p)) xs, w1)"]
  show ?case by simp
qed

subsection \<open>Recording the deltas\<close>

lemma has_shape_nth: "has_shape a h w \<Longrightarrow> i < h \<Longrightarrow> length (a ! i) = w"
  by (simp add: has_shape_def list_all_length)

lemma has_shape_zeros: "has_shape (zeros rows cols) rows cols"
  by (simp add: has_shape_def zeros_def list_all_length)

lemma set_cell_ok:
  assumes "has_shape sm rows cols" "iy < rows" "ix < cols"
  shows "set_cell sm iy ix v = Inr (sm[iy := (sm ! iy)[ix := v]])"
    and "has_shape (sm[iy := (sm ! iy)[ix := v]]) rows cols"
proof -
  from assms have l: "length sm = rows" and r: "length (sm ! iy) = cols"
    by (simp_all add: has_shape_def list_all_length)
  show "set_cell sm iy ix v = Inr (sm[iy := (sm ! iy)[ix := v]])"
    using assms l r by (simp add: set_cell_def)
  show "has_shape (sm[iy := (sm ! iy)[ix := v]]) rows cols"
    using assms by (auto simp: has_shape_def list_all_length nth_list_update)
qed

lemma set_cell_nth:
  assumes "has_shape sm rows cols" "iy < rows" "ix < cols" "r < rows" "c < cols"
  shows "sm[iy := (sm ! iy)[ix := v]] ! r ! c = (if (r, c) = (iy, ix) then v else sm ! r ! c)"
proof -
  from assms have l: "length sm = rows" and rl: "length (sm ! iy) = cols"
    by (simp_all add: has_shape_def list_all_length)
  show ?thesis using assms l rl by (auto simp: nth_list_update)
qed

lemma record_deltas_result:
  assumes "has_shape sm rows cols"
    and "\<forall>z \<in> set zs. fst (fst z) < rows \<and> snd (fst z) < cols"
  shows "\<exists>sm'. record_deltas base zs sm = Inr (sm', map fst zs) \<and> has_shape sm' rows cols \<and>
           (\<forall>r<rows. \<forall>c<cols. sm' ! r ! c =
              (case map_of (rev zs) (r, c) of None \<Rightarrow> sm ! r ! c | Some v \<Rightarrow> base - v))"
  using assms
proof (induction zs arbitrary: sm)
  case Nil
  then show ?case by simp
next
  case (Cons z zs)
  obtain iy ix v where z: "z = ((iy, ix), v)" by (metis prod.collapse)
  from Cons.prems z have b: "iy < rows" "ix < cols" by simp_all
  let ?sm1 = "sm[iy := (sm ! iy)[ix := base - v]]"
  note sc = set_cell_ok [OF Cons.prems(1) b, of "base - v"]
  from Cons.prems(2) have rest: "\<forall>z \<in> set zs. fst (fst z) < rows \<and> snd (fst z) < cols"
    by simp
  from Cons.IH [OF sc(2) rest] obtain sm' where
    run: "record_deltas base zs ?sm1 = Inr (sm', map fst zs)" and
    sh: "has_shape sm' rows cols" and
    val: "\<forall>r<rows. \<forall>c<cols. sm' ! r ! c =
              (case map_of (rev zs) (r, c) of None \<Rightarrow> ?sm1 ! r ! c | Some v \<Rightarrow> base - v)"
    by blast
  have "record_deltas base (z # zs) sm = Inr (sm', map fst (z # zs))"
    using run sc(1) z by simp
  moreover have "\<forall>r<rows. \<forall>c<cols. sm' ! r ! c =
              (case map_of (rev (z # zs)) (r, c) of None \<Rightarrow> sm ! r ! c | Some v \<Rightarrow> base - v)"
  proof (intro allI impI)
    fix r c assume rc: "r < rows" "c < cols"
    have upd: "?sm1 ! r ! c = (if (r, c) = (iy, ix) then base - v else sm ! r ! c)"
      by (rule set_cell_nth [OF Cons.prems(1) b rc])
    show "sm' ! r ! c =
              (case map_of (rev (z # zs)) (r, c) of None \<Rightarrow> sm ! r ! c | Some v \<Rightarrow> base - v)"
      using val rc upd z by (auto simp: map_add_def split: option.splits)
  qed
  ultimately show ?case using sh by blast
qed

lemma coordinates_length: "length (coordinates rows cols) = rows * cols"
  by (simp add: coordinates_def length_concat o_def sum_list_triv)

lemma coordinates_set: "set (coordinates rows cols) = {0..<rows} \<times> {0..<cols}"
  by (auto simp: coordinates_def)

lemma coordinates_product:
  "coordinates rows cols = map prod.swap (List.product [0..<cols] [0..<rows])"
  by (simp add: coordinates_def product_concat_map map_concat o_def)

lemma coordinates_distinct: "distinct (coordinates rows cols)"
  by (simp add: coordinates_product distinct_map distinct_product)

lemma sweep_as_coordinates:
  "concat (map (\<lambda>y. map (\<lambda>x. g x y) (map (\<lambda>k. k * p) [0..<rows])) (map (\<lambda>k. k * p) [0..<cols]))
     = map (\<lambda>(iy, ix). g (iy * p) (ix * (p::nat))) (coordinates rows cols)"
  by (simp add: coordinates_def map_concat o_def)

lemma map_of_graph:
  "map_of (rev (zip ks (map h ks))) k = (if k \<in> set ks then Some (h k) else None)"
proof -
  have "zip ks (map h ks) = map (\<lambda>k. (k, h k)) ks"
    by (simp add: zip_map2 zip_same_conv_map)
  then have "rev (zip ks (map h ks)) = map (\<lambda>k. (k, h k)) (rev ks)"
    by (simp add: rev_map)
  then show ?thesis
    by (simp add: map_of_map_restrict restrict_map_def)
qed

lemma record_deltas_graph:
  "record_deltas base (zip (coordinates rows cols) (map h (coordinates rows cols))) (zeros rows cols)
     = Inr (map (\<lambda>iy. map (\<lambda>ix. base - h (iy, ix)) [0..<cols]) [0..<rows],
            coordinates rows cols)"
proof -
  let ?zs = "zip (coordinates rows cols) (map h (coordinates rows cols))"
  have inb: "\<forall>z \<in> set ?zs. fst (fst z) < rows \<and> snd (fst z) < cols"
  proof
    fix z assume "z \<in> set ?zs"
    then have "(fst z, snd z) \<in> set ?zs" by simp
    then have "fst z \<in> set (coordinates rows cols)" by (rule set_zip_leftD)
    then show "fst (fst z) < rows \<and> snd (fst z) < cols"
      by (auto simp: coordinates_set)
  qed
  from record_deltas_result [OF has_shape_zeros inb, of base] obtain sm' where
    run: "record_deltas base ?zs (zeros rows cols) = Inr (sm', map fst ?zs)" and
    sh: "has_shape sm' rows cols" and
    val: "\<forall>r<rows. \<forall>c<cols. sm' ! r ! c =
              (case map_of (rev ?zs) (r, c) of None \<Rightarrow> zeros rows cols ! r ! c
               | Some v \<Rightarrow> base - v)"
    by blast
  have cell: "sm' ! r ! c = base - h (r, c)" if "r < rows" "c < cols" for r c
    using val that by (simp add: map_of_graph coordinates_set)
  have "sm' = map (\<lambda>iy. map (\<lambda>ix. base - h (iy, ix)) [0..<cols]) [0..<rows]"
  proof (rule nth_equalityI)
    show "length sm' = length (map (\<lambda>iy. map (\<lambda>ix. base - h (iy, ix)) [0..<cols]) [0..<rows])"
      using sh by (simp add: has_shape_def)
  next
    fix r assume "r < length sm'"
    then have r: "r < rows" using sh by (simp add: has_shape_def)
    have "sm' ! r = map (\<lambda>ix. base - h (r, ix)) [0..<cols]"
    proof (rule nth_equalityI)
      show "length (sm' ! r) = length (map (\<lambda>ix. base - h (r, ix)) [0..<cols])"
        using has_shape_nth [OF sh r] by simp
    next
      fix c assume "c < length (sm' ! r)"
      then have "c < cols" using has_shape_nth [OF sh r] by simp
      then show "sm' ! r ! c = map (\<lambda>ix. base - h (r, ix)) [0..<cols] ! c"
        using cell [OF r] by simp
    qed
    then show "sm' ! r = map (\<lambda>iy. map (\<lambda>ix. base - h (iy, ix)) [0..<cols]) [0..<rows] ! r"
      using r by simp
  qed
  with run show ?thesis by simp
qed

subsection \<open>The map before the resize\<close>

lemma ceil_div_pos: "0 < p \<Longrightarrow> ceil_div n p = Inr (nat \<lceil>real n / real p\<rceil>)"
  by (simp add: ceil_div_def)

lemma sensitivity_grid_general:
  assumes p: "0 < p" and sc: "scores_class m ci"
  shows "\<exists>grid w'. sensitivity_grid self m img ci p w = Inr (grid, w') \<and>
           has_shape grid (nat \<lceil>real (shape0 img) / real p\<rceil>)
                          (nat \<lceil>real (shape1 img) / real p\<rceil>) \<and>
           calls w' = calls w @ ([img], 1) #
             map (\<lambda>(iy, ix). patch_call img p (ix * p) (iy * p))
                 (coordinates (nat \<lceil>real (shape0 img) / real p\<rceil>)
                              (nat \<lceil>real (shape1 img) / real p\<rceil>))"
proof -
  let ?rows = "nat \<lceil>real (shape0 img) / real p\<rceil>"
  let ?cols = "nat \<lceil>real (shape1 img) / real p\<rceil>"
  let ?xs = "map (\<lambda>k. k * p) [0..<?rows]"
  let ?ys = "map (\<lambda>k. k * p) [0..<?cols]"
  obtain out w1 where pr: "predict m [img] 1 w = (out, w1)"
    by (cases "predict m [img] 1 w")
  have "out = fst (m (model_state w) [img] 1)"
    using predict_fst [of m "[img]" 1 w] pr by simp
  with sc obtain base where tc: "target_confidence out ci = Inr base"
    unfolding scores_class_def by blast
  have cw1: "calls w1 = calls w @ [([img], 1)]"
    using predict_calls [of m "[img]" 1 w] pr by simp
  have tcp: "target_class_predictions m img ci p w1 = sweep_y m img ci p ?ys ?xs ([], w1)"
    using p by (simp add: target_class_predictions_def py_range_0)
  from sweep_y_total [OF sc] obtain preds w2 where
    sw: "sweep_y m img ci p ?ys ?xs ([], w1) = Inr (preds, w2)" by fastforce
  from sweep_y_trace [OF sw] have
    len: "length preds = ?cols * ?rows" and
    cw2: "calls w2 = calls w1 @ concat (map (\<lambda>y. map (patch_call img p y) ?xs) ?ys)"
    by simp_all
  have cw2': "calls w2 = calls w @ ([img], 1) #
             map (\<lambda>(iy, ix). patch_call img p (ix * p) (iy * p)) (coordinates ?rows ?cols)"
    using cw2 cw1 sweep_as_coordinates [of "\<lambda>x y. patch_call img p y x" p ?rows ?cols]
    by simp
  let ?zs = "zip (coordinates ?rows ?cols) preds"
  have inb: "\<forall>z \<in> set ?zs. fst (fst z) < ?rows \<and> snd (fst z) < ?cols"
  proof
    fix z assume "z \<in> set ?zs"
    then have "(fst z, snd z) \<in> set ?zs" by simp
    then have "fst z \<in> set (coordinates ?rows ?cols)" by (rule set_zip_leftD)
    then show "fst (fst z) < ?rows \<and> snd (fst z) < ?cols"
      by (auto simp: coordinates_set)
  qed
  from record_deltas_result [OF has_shape_zeros inb, of base] obtain sm where
    rd: "record_deltas base ?zs (zeros ?rows ?cols) = Inr (sm, map fst ?zs)" and
    sh: "has_shape sm ?rows ?cols" by blast
  have "sensitivity_grid self m img ci p w = Inr (sm, w2)"
    using p pr tc tcp sw rd by (simp add: sensitivity_grid_def ceil_div_pos)
  with sh cw2' show ?thesis by blast
qed

lemma sensitivity_grid_confidence:
  assumes p: "0 < p" and conf: "gives_confidence m ci c"
  shows "\<exists>w'. sensitivity_grid self m img ci p w
           = Inr (map (\<lambda>iy. map (\<lambda>ix. c img - c (apply_grey_patch img (iy * p) (ix * p) p))
                                [0..<nat \<lceil>real (shape1 img) / real p\<rceil>])
                      [0..<nat \<lceil>real (shape0 img) / real p\<rceil>], w')"
proof -
  let ?rows = "nat \<lceil>real (shape0 img) / real p\<rceil>"
  let ?cols = "nat \<lceil>real (shape1 img) / real p\<rceil>"
  let ?xs = "map (\<lambda>k. k * p) [0..<?rows]"
  let ?ys = "map (\<lambda>k. k * p) [0..<?cols]"
  let ?h = "\<lambda>(iy, ix). c (apply_grey_patch img (iy * p) (ix * p) p)"
  obtain out w1 where pr: "predict m [img] 1 w = (out, w1)"
    by (cases "predict m [img] 1 w")
  have "out = fst (m (model_state w) [img] 1)"
    using predict_fst [of m "[img]" 1 w] pr by simp
  with conf have tc: "target_confidence out ci = Inr (c img)"
    unfolding gives_confidence_def by simp
  have tcp: "target_class_predictions m img ci p w1 = sweep_y m img ci p ?ys ?xs ([], w1)"
    using p by (simp add: target_class_predictions_def py_range_0)
  from sweep_y_confidence [OF conf, where acc = "([], w1)" and img = img and p = p
      and ys = ?ys and xs = ?xs] obtain w2 where
    sw: "sweep_y m img ci p ?ys ?xs ([], w1)
       = Inr (concat (map (\<lambda>y. map (\<lambda>x. c (apply_grey_patch img x y p)) ?xs) ?ys), w2)"
    by auto
  have preds: "concat (map (\<lambda>y. map (\<lambda>x. c (apply_grey_patch img x y p)) ?xs) ?ys)
      = map ?h (coordinates ?rows ?cols)"
    by (rule sweep_as_coordinates)
  have rd: "record_deltas (c img) (zip (coordinates ?rows ?cols) (map ?h (coordinates ?rows ?cols)))
              (zeros ?rows ?cols)
     = Inr (map (\<lambda>iy. map (\<lambda>ix. c img - ?h (iy, ix)) [0..<?cols]) [0..<?rows],
            coordinates ?rows ?cols)"
    by (rule record_deltas_graph)
  have "sensitivity_grid self m img ci p w
     = Inr (map (\<lambda>iy. map (\<lambda>ix. c img - ?h (iy, ix)) [0..<?cols]) [0..<?rows], w2)"
    using p pr tc tcp sw preds rd by (simp add: sensitivity_grid_def ceil_div_pos)
  then show ?thesis by auto
qed

lemma constant_model_scores: "scores_class (constant_model c) 0"
  by (simp add: scores_class_def constant_model_def target_confidence_def)

lemma constant_model_confidence: "gives_confidence (constant_model c) 0 (\<lambda>_. c)"
  by (simp add: gives_confidence_def constant_model_def target_confidence_def)

subsection \<open>The resize\<close>

lemma ceil_pos: "0 < n \<Longrightarrow> 0 < p \<Longrightarrow> 0 < nat \<lceil>real n / real p\<rceil>"
  by simp

lemma has_shape_shape0: "has_shape a h w \<Longrightarrow> shape0 a = h"
  by (simp add: has_shape_def shape0_def)

lemma has_shape_shape1: "has_shape a h w \<Longrightarrow> 0 < h \<Longrightarrow> shape1 a = w"
  by (cases a) (simp_all add: has_shape_def shape1_def)

lemma cv2_resize_shape:
  assumes "has_shape src h w" "0 < h" "0 < w" "0 < dwidth" "0 < dheight"
  shows "\<exists>out. cv2_resize src (dwidth, dheight) = Inr out \<and> has_shape out dheight dwidth"
  using assms has_shape_shape0 [OF assms(1)] has_shape_shape1 [OF assms(1,2)]
  by (simp add: cv2_resize_def has_shape_def list_all_iff)

lemma clamp_index_less: "0 < ssize \<Longrightarrow> clamp_index i ssize < ssize"
  by (simp add: clamp_index_def)

lemma interpolate_zeros:
  assumes "0 < h" "0 < w"
  shows "interpolate (zeros h w) (src_coord dy h dh) (src_coord dx w dw) = 0"
proof -
  have z: "zeros h w ! y ! x = 0" if "y < h" "x < w" for y x
    using that by (simp add: zeros_def)
  show ?thesis
    using assms
    by (simp add: interpolate_def src_coord_def Let_def z clamp_index_less)
qed

lemma cv2_resize_zeros:
  assumes "0 < h" "0 < w" "0 < dwidth" "0 < dheight"
  shows "cv2_resize (zeros h w) (dwidth, dheight) = Inr (zeros dheight dwidth)"
proof -
  have s0: "shape0 (zeros h w) = h" and s1: "shape1 (zeros h w) = w"
    using has_shape_shape0 [OF has_shape_zeros] has_shape_shape1 [OF has_shape_zeros assms(1)]
    by simp_all
  have "map (\<lambda>dy. map (\<lambda>dx. interpolate (zeros h w) (src_coord dy h dheight)
                                  (src_coord dx w dwidth)) [0..<dwidth]) [0..<dheight]
        = map (\<lambda>dy. map (\<lambda>dx. 0) [0..<dwidth]) [0..<dheight]"
    by (simp only: interpolate_zeros [OF assms(1,2)])
  also have "\<dots> = zeros dheight dwidth"
    by (simp add: zeros_def map_replicate_const)
  finally have "map (\<lambda>dy. map (\<lambda>dx. interpolate (zeros h w) (src_coord dy h dheight)
                                  (src_coord dx w dwidth)) [0..<dwidth]) [0..<dheight]
        = zeros dheight dwidth" .
  then show ?thesis using assms by (simp add: cv2_resize_def s0 s1)
qed

subsection \<open>Deterministic models\<close>

lemma outcome_Inl: "outcome (Inl e) = Inl e"
  by (simp add: outcome_def)

lemma outcome_Inr: "outcome (Inr (v, w)) = Inr v"
  by (simp add: outcome_def)

lemma outcome_eq_InlD: "outcome r = Inl e \<Longrightarrow> r = Inl e"
  by (cases r) (auto simp: outcome_def)

lemma outcome_eq_InrD: "outcome r = Inr v \<Longrightarrow> \<exists>w. r = Inr (v, w)"
  by (cases r) (auto simp: outcome_def)

lemma get_sensitivity_map_general:
  assumes p: "0 < p" and sc: "scores_class m ci"
    and h: "0 < shape0 img" and w: "0 < shape1 img"
  shows "\<exists>out w'. get_sensitivity_map self m img ci p w0 = Inr (out, w') \<and>
           has_shape out (shape1 img) (shape0 img) \<and>
           calls w' = calls w0 @ ([img], 1) #
             map (\<lambda>(iy, ix). patch_call img p (ix * p) (iy * p))
                 (coordinates (nat \<lceil>real (shape0 img) / real p\<rceil>)
                              (nat \<lceil>real (shape1 img) / real p\<rceil>))"
proof -
  let ?rows = "nat \<lceil>real (shape0 img) / real p\<rceil>"
  let ?cols = "nat \<lceil>real (shape1 img) / real p\<rceil>"
  from sensitivity_grid_general [OF p sc, of self img w0] obtain grid w' where
    g: "sensitivity_grid self m img ci p w0 = Inr (grid, w')" and
    sh: "has_shape grid ?rows ?cols" and
    cl: "calls w' = calls w0 @ ([img], 1) #
             map (\<lambda>(iy, ix). patch_call img p (ix * p) (iy * p)) (coordinates ?rows ?cols)"
    by blast
  from cv2_resize_shape [OF sh ceil_pos [OF h p] ceil_pos [OF w p] h w] obtain out where
    r: "cv2_resize grid (shape0 img, shape1 img) = Inr out" and
    so: "has_shape out (shape1 img) (shape0 img)" by blast
  have "get_sensitivity_map self m img ci p w0 = Inr (out, w')"
    using g r by (simp add: get_sensitivity_map_def)
  with so cl show ?thesis by blast
qed

lemma sweep_x_state_independent:
  assumes "deterministic m f" and "fst a1 = fst a2"
  shows "outcome (sweep_x m img ci p y xs a1) = outcome (sweep_x m img ci p y xs a2)"
  using assms(2)
proof (induction xs arbitrary: a1 a2)
  case Nil
  then show ?case by (cases a1, cases a2) (simp add: outcome_Inr)
next
  case (Cons x xs)
  let ?b = "[apply_grey_patch img x y p]"
  obtain o1 w1 where p1: "predict m ?b 1 (snd a1) = (o1, w1)"
    by (cases "predict m ?b 1 (snd a1)")
  obtain o2 w2 where p2: "predict m ?b 1 (snd a2) = (o2, w2)"
    by (cases "predict m ?b 1 (snd a2)")
  have "o1 = f ?b 1" "o2 = f ?b 1"
    using predict_fst [of m ?b 1 "snd a1"] predict_fst [of m ?b 1 "snd a2"] p1 p2 assms(1)
    by (simp_all add: deterministic_def)
  then have eq: "o2 = o1" by simp
  show ?case
  proof (cases "target_confidence o1 ci")
    case (Inl e)
    then show ?thesis using p1 p2 eq by (simp add: outcome_Inl)
  next
    case (Inr c)
    have "outcome (sweep_x m img ci p y xs (fst a1 @ [c], w1))
        = outcome (sweep_x m img ci p y xs (fst a2 @ [c], w2))"
      by (rule Cons.IH) (simp add: Cons.prems)
    then show ?thesis using p1 p2 eq Inr by simp
  qed
qed

lemma outcome_cases:
  assumes "outcome r1 = outcome r2"
  obtains (Err) e where "r1 = Inl e" "r2 = Inl e"
        | (Ok) v w1 w2 where "r1 = Inr (v, w1)" "r2 = Inr (v, w2)"
proof (cases r1)
  case (Inl e)
  with assms have "r2 = Inl e" by (simp add: outcome_Inl outcome_eq_InlD)
  with Inl show ?thesis by (rule Err)
next
  case (Inr b)
  obtain v w1 where b: "b = (v, w1)" by (cases b)
  with Inr assms have "outcome r2 = Inr v" by (simp add: outcome_Inr)
  then obtain w2 where "r2 = Inr (v, w2)" by (auto dest: outcome_eq_InrD)
  with Inr b show ?thesis by (auto intro: Ok)
qed

lemma sweep_y_state_independent:
  assumes "deterministic m f" and "fst a1 = fst a2"
  shows "outcome (sweep_y m img ci p ys xs a1) = outcome (sweep_y m img ci p ys xs a2)"
  using assms(2)
proof (induction ys arbitrary: a1 a2)
  case Nil
  then show ?case by (cases a1, cases a2) (simp add: outcome_Inr)
next
  case (Cons y ys)
  from sweep_x_state_independent [OF assms(1) Cons.prems, of img ci p y xs]
  show ?case
  proof (cases rule: outcome_cases)
    case (Err e)
    then show ?thesis by (simp add: outcome_Inl)
  next
    case (Ok v w1 w2)
    have "outcome (sweep_y m img ci p ys xs (v, w1)) = outcome (sweep_y m img ci p ys xs (v, w2))"
      by (rule Cons.IH) simp
    with Ok show ?thesis by simp
  qed
qed

lemma sensitivity_grid_state_independent:
  assumes "deterministic m f"
  shows "outcome (sensitivity_grid self m img ci p w1)
       = outcome (sensitivity_grid self' m img ci p w2)"
proof -
  obtain o1 v1 where p1: "predict m [img] 1 w1 = (o1, v1)" by (cases "predict m [img] 1 w1")
  obtain o2 v2 where p2: "predict m [img] 1 w2 = (o2, v2)" by (cases "predict m [img] 1 w2")
  have "o1 = f [img] 1" "o2 = f [img] 1"
    using predict_fst [of m "[img]" 1 w1] predict_fst [of m "[img]" 1 w2] p1 p2 assms
    by (simp_all add: deterministic_def)
  then have eq: "o2 = o1" by simp
  have "outcome (target_class_predictions m img ci p v1)
      = outcome (target_class_predictions m img ci p v2)"
    unfolding target_class_predictions_def
    by (rule sweep_y_state_independent [OF assms]) simp
  then show ?thesis
  proof (cases rule: outcome_cases)
    case (Err e)
    then show ?thesis using p1 p2 eq
      by (simp add: sensitivity_grid_def outcome_Inl split: sum.splits)
  next
    case (Ok v u1 u2)
    then show ?thesis using p1 p2 eq
      by (simp add: sensitivity_grid_def outcome_Inl outcome_Inr split: sum.splits)
  qed
qed

lemma get_sensitivity_map_state_independent:
  assumes "deterministic m f"
  shows "outcome (get_sensitivity_map self m img ci p w1)
       = outcome (get_sensitivity_map self' m img ci p w2)"
  using sensitivity_grid_state_independent [OF assms, of self img ci p w1 self' w2]
proof (cases rule: outcome_cases)
  case (Err e)
  then show ?thesis by (simp add: get_sensitivity_map_def outcome_Inl)
next
  case (Ok v u1 u2)
  then show ?thesis
    by (simp add: get_sensitivity_map_def outcome_Inl outcome_Inr split: sum.splits)
qed

subsection \<open>Patches, instances and concrete inputs\<close>

lemma pixel_model_confidence: "gives_confidence (pixel_model r c) 0 (pixel_confidence r c)"
  by (simp add: gives_confidence_def pixel_model_def target_confidence_def)

lemma constant_model_deterministic:
  "deterministic (constant_model c) (\<lambda>batch n. map (\<lambda>_. [c]) batch)"
  by (simp add: deterministic_def constant_model_def)

lemma apply_grey_patch_length: "length (apply_grey_patch img x y p) = length img"
  by (simp add: apply_grey_patch_def)

lemma apply_grey_patch_row:
  assumes "r < length img"
  shows "apply_grey_patch img x y p ! r
       = map (\<lambda>(c, pixel). if in_patch x y p r c then map (\<lambda>_. grey_value) pixel else pixel)
             (enumerate 0 (img ! r))"
  using assms by (simp add: apply_grey_patch_def nth_enumerate_eq)

lemma apply_grey_patch_row_length:
  "r < length img \<Longrightarrow> length (apply_grey_patch img x y p ! r) = length (img ! r)"
  by (simp add: apply_grey_patch_row)

lemma apply_grey_patch_nth:
  assumes "r < length img" "c < length (img ! r)"
  shows "apply_grey_patch img x y p ! r ! c
       = (if in_patch x y p r c then map (\<lambda>_. grey_value) (img ! r ! c) else img ! r ! c)"
  using assms by (simp add: apply_grey_patch_row nth_enumerate_eq)

lemma apply_grey_patch_whole:
  assumes "has_shape img p p"
  shows "apply_grey_patch img 0 0 p = fully_occluded img"
proof (rule nth_equalityI)
  show "length (apply_grey_patch img 0 0 p) = length (fully_occluded img)"
    by (simp add: apply_grey_patch_length fully_occluded_def)
next
  fix r assume "r < length (apply_grey_patch img 0 0 p)"
  then have r: "r < length img" by (simp add: apply_grey_patch_length)
  then have rp: "r < p" using assms by (simp add: has_shape_def)
  have rl: "length (img ! r) = p" using has_shape_nth [OF assms rp] .
  show "apply_grey_patch img 0 0 p ! r = fully_occluded img ! r"
  proof (rule nth_equalityI)
    show "length (apply_grey_patch img 0 0 p ! r) = length (fully_occluded img ! r)"
      using r by (simp add: apply_grey_patch_row_length fully_occluded_def)
  next
    fix c assume "c < length (apply_grey_patch img 0 0 p ! r)"
    then have c: "c < length (img ! r)" using r by (simp add: apply_grey_patch_row_length)
    then have "in_patch 0 0 p r c" using rp rl by (simp add: in_patch_def)
    then show "apply_grey_patch img 0 0 p ! r ! c = fully_occluded img ! r ! c"
      using r c by (simp add: apply_grey_patch_nth fully_occluded_def)
  qed
qed

lemma ceil_self: "0 < p \<Longrightarrow> nat \<lceil>real p / real p\<rceil> = 1"
  by simp

lemma sensitivity_grid_self_irrelevant:
  "sensitivity_grid self m img ci p w = sensitivity_grid self' m img ci p w"
  by (simp add: sensitivity_grid_def)

lemma get_sensitivity_map_self_irrelevant:
  "get_sensitivity_map self m img ci p w = get_sensitivity_map self' m img ci p w"
  by (simp add: get_sensitivity_map_def sensitivity_grid_self_irrelevant [of self _ _ _ _ _ self'])

lemma sensitivity_maps_self_irrelevant:
  "sensitivity_maps self m images ci p w = sensitivity_maps self' m images ci p w"
proof (induction images arbitrary: w)
  case Nil
  show ?case by simp
next
  case (Cons img images)
  show ?case
    by (simp add: Cons.IH get_sensitivity_map_self_irrelevant [of self _ _ _ _ _ self']
          split: sum.splits prod.splits)
qed

lemma explain_self_irrelevant:
  "explain self vd m ci p cm hdisp gdisp w = explain self' vd m ci p cm hdisp gdisp w"
  by (simp add: explain_def sensitivity_maps_self_irrelevant [of self _ _ _ _ _ self'])

lemma uniform_image_shape: "has_shape (uniform_image h w v) h w"
  by (simp add: has_shape_def uniform_image_def list_all_iff)

subsection \<open>The assignments of the pass, patches outside the image\<close>

lemma map_of_rev_distinct: "distinct (map fst xs) \<Longrightarrow> map_of (rev xs) = map_of xs"
proof (induction xs)
  case Nil
  show ?case by simp
next
  case (Cons x xs)
  obtain k v where x: "x = (k, v)" by (cases x)
  from Cons.prems x have nk: "map_of xs k = None"
    by (simp add: map_of_eq_None_iff)
  from Cons.prems have ih: "map_of (rev xs) = map_of xs" by (simp add: Cons.IH)
  show ?case
  proof
    fix j
    show "map_of (rev (x # xs)) j = map_of (x # xs) j"
      using nk ih x by (simp add: map_add_def split: option.splits)
  qed
qed

lemma count_list_distinct: "distinct xs \<Longrightarrow> x \<in> set xs \<Longrightarrow> count_list xs x = 1"
  by (induction xs) auto

lemma coordinates_nth:
  assumes "iy < rows" "ix < cols"
  shows "ix * rows + iy < length (coordinates rows cols)"
    and "coordinates rows cols ! (ix * rows + iy) = (iy, ix)"
proof -
  have "ix * rows + iy < ix * rows + rows" using assms(1) by simp
  also have "\<dots> = Suc ix * rows" by simp
  also have "\<dots> \<le> cols * rows" using assms(2) by (intro mult_le_mono1) simp
  finally have lt: "ix * rows + iy < cols * rows" .
  then show "ix * rows + iy < length (coordinates rows cols)"
    by (simp add: coordinates_length mult.commute)
  have d: "(ix * rows + iy) div rows = ix" and m: "(ix * rows + iy) mod rows = iy"
    using assms(1) by simp_all
  have "List.product [0..<cols] [0..<rows] ! (ix * rows + iy)
      = ([0..<cols] ! ((ix * rows + iy) div rows), [0..<rows] ! ((ix * rows + iy) mod rows))"
    using lt by (simp add: product_nth)
  then have "List.product [0..<cols] [0..<rows] ! (ix * rows + iy) = (ix, iy)"
    using assms by (simp only: d m nth_upt add_0)
  then show "coordinates rows cols ! (ix * rows + iy) = (iy, ix)"
    using lt by (simp add: coordinates_product)
qed

lemma record_deltas_zip:
  assumes sh: "has_shape sm rows cols"
    and len: "length predictions = length (coordinates rows cols)"
  shows "\<exists>sm'. record_deltas base (zip (coordinates rows cols) predictions) sm
                 = Inr (sm', coordinates rows cols) \<and>
           has_shape sm' rows cols \<and>
           (\<forall>iy<rows. \<forall>ix<cols. sm' ! iy ! ix = base - predictions ! (ix * rows + iy))"
proof -
  let ?ks = "coordinates rows cols"
  let ?zs = "zip ?ks predictions"
  have inb: "\<forall>z \<in> set ?zs. fst (fst z) < rows \<and> snd (fst z) < cols"
  proof
    fix z assume "z \<in> set ?zs"
    then have "(fst z, snd z) \<in> set ?zs" by simp
    then have "fst z \<in> set ?ks" by (rule set_zip_leftD)
    then show "fst (fst z) < rows \<and> snd (fst z) < cols"
      by (auto simp: coordinates_set)
  qed
  have keys: "map fst ?zs = ?ks" using len by simp
  from record_deltas_result [OF sh inb, of base] obtain sm' where
    run: "record_deltas base ?zs sm = Inr (sm', map fst ?zs)" and
    sh': "has_shape sm' rows cols" and
    val: "\<forall>r<rows. \<forall>c<cols. sm' ! r ! c =
              (case map_of (rev ?zs) (r, c) of None \<Rightarrow> sm ! r ! c | Some v \<Rightarrow> base - v)"
    by blast
  have mo: "map_of (rev ?zs) = map_of ?zs"
    by (rule map_of_rev_distinct) (simp add: keys coordinates_distinct)
  have cell: "sm' ! iy ! ix = base - predictions ! (ix * rows + iy)"
    if b: "iy < rows" "ix < cols" for iy ix
  proof -
    note n = coordinates_nth [OF b]
    have "map_of ?zs (?ks ! (ix * rows + iy)) = Some (predictions ! (ix * rows + iy))"
      using n(1) len by (intro map_of_zip_nth) (simp_all add: coordinates_distinct)
    then have "map_of ?zs (iy, ix) = Some (predictions ! (ix * rows + iy))"
      by (simp only: n(2))
    with val b mo show ?thesis by simp
  qed
  from run sh' cell show ?thesis by (simp only: keys) blast
qed

lemma apply_grey_patch_below:
  assumes "length img \<le> y"
  shows "apply_grey_patch img x y p = img"
proof (rule nth_equalityI)
  show "length (apply_grey_patch img x y p) = length img" by (rule apply_grey_patch_length)
next
  fix r assume "r < length (apply_grey_patch img x y p)"
  then have r: "r < length img" by (simp add: apply_grey_patch_length)
  show "apply_grey_patch img x y p ! r = img ! r"
  proof (rule nth_equalityI)
    show "length (apply_grey_patch img x y p ! r) = length (img ! r)"
      using r by (rule apply_grey_patch_row_length)
  next
    fix c assume "c < length (apply_grey_patch img x y p ! r)"
    then have c: "c < length (img ! r)" using r by (simp add: apply_grey_patch_row_length)
    have "\<not> in_patch x y p r c" using r assms by (simp add: in_patch_def)
    then show "apply_grey_patch img x y p ! r ! c = img ! r ! c"
      using r c by (simp add: apply_grey_patch_nth)
  qed
qed


lemma coordinates_2_3: "coordinates 2 3 = [(0, 0), (1, 0), (0, 1), (1, 1), (0, 2), (1, 2)]"
  by (simp add: coordinates_def upt_rec numeral_2_eq_2 numeral_3_eq_3)


section \<open>The delta-recording pass\<close>

text \<open>
  C8. In a call with a positive patch size and a model that scores the target class, the
  sweep records as many predictions as the coordinate list has entries, and the coordinate
  list names every cell of the map exactly once. The delta-recording pass over the two
  lists zipped succeeds and assigns exactly the cells of the coordinate list, in its
  order: every cell of the map is assigned exactly once, and after the pass it holds the
  baseline confidence minus the prediction paired with it. The map of the pass is the map
  that lines 78-110 produce.
\<close>

theorem coordinates_assigned_once:
  assumes "0 < patch_size" and "scores_class m class_index"
  shows "\<exists>out w1 base_confidence predictions w2 sm assigned.
           predict m [img] 1 w = (out, w1) \<and>
           target_confidence out class_index = Inr base_confidence \<and>
           target_class_predictions m img class_index patch_size w1 = Inr (predictions, w2) \<and>
           length predictions
             = length (coordinates (nat \<lceil>real (shape0 img) / real patch_size\<rceil>)
                                   (nat \<lceil>real (shape1 img) / real patch_size\<rceil>)) \<and>
           record_deltas base_confidence
               (zip (coordinates (nat \<lceil>real (shape0 img) / real patch_size\<rceil>)
                                 (nat \<lceil>real (shape1 img) / real patch_size\<rceil>))
                    predictions)
               (zeros (nat \<lceil>real (shape0 img) / real patch_size\<rceil>)
                      (nat \<lceil>real (shape1 img) / real patch_size\<rceil>))
             = Inr (sm, assigned) \<and>
           sensitivity_grid self m img class_index patch_size w = Inr (sm, w2) \<and>
           assigned = coordinates (nat \<lceil>real (shape0 img) / real patch_size\<rceil>)
                                  (nat \<lceil>real (shape1 img) / real patch_size\<rceil>) \<and>
           distinct assigned \<and>
           set assigned = {0..<nat \<lceil>real (shape0 img) / real patch_size\<rceil>}
                          \<times> {0..<nat \<lceil>real (shape1 img) / real patch_size\<rceil>} \<and>
           (\<forall>index_y<nat \<lceil>real (shape0 img) / real patch_size\<rceil>.
              \<forall>index_x<nat \<lceil>real (shape1 img) / real patch_size\<rceil>.
                count_list assigned (index_y, index_x) = 1 \<and>
                sm ! index_y ! index_x
                  = base_confidence
                    - predictions ! (index_x * nat \<lceil>real (shape0 img) / real patch_size\<rceil>
                                     + index_y))"
proof -
  let ?rows = "nat \<lceil>real (shape0 img) / real patch_size\<rceil>"
  let ?cols = "nat \<lceil>real (shape1 img) / real patch_size\<rceil>"
  let ?xs = "map (\<lambda>k. k * patch_size) [0..<?rows]"
  let ?ys = "map (\<lambda>k. k * patch_size) [0..<?cols]"
  obtain out w1 where pr: "predict m [img] 1 w = (out, w1)"
    by (cases "predict m [img] 1 w")
  have "out = fst (m (model_state w) [img] 1)"
    using predict_fst [of m "[img]" 1 w] pr by simp
  with assms(2) obtain base where tc: "target_confidence out class_index = Inr base"
    unfolding scores_class_def by blast
  have tcp: "target_class_predictions m img class_index patch_size w1
      = sweep_y m img class_index patch_size ?ys ?xs ([], w1)"
    using assms(1) by (simp add: target_class_predictions_def py_range_0)
  from sweep_y_total [OF assms(2)] obtain predictions w2 where
    sw: "sweep_y m img class_index patch_size ?ys ?xs ([], w1) = Inr (predictions, w2)"
    by fastforce
  from sweep_y_trace [OF sw] have len: "length predictions = length (coordinates ?rows ?cols)"
    by (simp add: coordinates_length mult.commute)
  from record_deltas_zip [OF has_shape_zeros len, of base] obtain sm where
    rd: "record_deltas base (zip (coordinates ?rows ?cols) predictions) (zeros ?rows ?cols)
           = Inr (sm, coordinates ?rows ?cols)" and
    val: "\<forall>iy<?rows. \<forall>ix<?cols. sm ! iy ! ix = base - predictions ! (ix * ?rows + iy)"
    by blast
  have grid: "sensitivity_grid self m img class_index patch_size w = Inr (sm, w2)"
    using assms(1) pr tc tcp sw rd by (simp add: sensitivity_grid_def ceil_div_pos)
  have once: "count_list (coordinates ?rows ?cols) (iy, ix) = 1"
    if "iy < ?rows" "ix < ?cols" for iy ix
    using that by (intro count_list_distinct coordinates_distinct) (simp add: coordinates_set)
  have tcp': "target_class_predictions m img class_index patch_size w1 = Inr (predictions, w2)"
    using tcp sw by simp
  show ?thesis
    using pr tc tcp' len rd grid val once coordinates_distinct [of ?rows ?cols]
      coordinates_set [of ?rows ?cols]
    by (intro exI [of _ out] exI [of _ w1] exI [of _ base] exI [of _ predictions]
        exI [of _ w2] exI [of _ sm] exI [of _ "coordinates ?rows ?cols"]) simp
qed

theorem coordinates_assigned_once_witness:
  "(0::nat) < 2 \<and> scores_class (constant_model (9 / 10)) 0 \<and>
   (\<exists>predictions w2 sm assigned.
      record_deltas (9 / 10) (zip (coordinates 2 3) predictions) (zeros 2 3)
        = Inr (sm, assigned) \<and>
      sensitivity_grid (init None) (constant_model (9 / 10)) (uniform_image 3 5 100) 0 2
        fresh_run = Inr (sm, w2) \<and>
      length predictions = 6 \<and>
      assigned = [(0, 0), (1, 0), (0, 1), (1, 1), (0, 2), (1, 2)] \<and>
      (\<forall>index_y<2. \<forall>index_x<3.
         count_list assigned (index_y, index_x) = 1 \<and>
         sm ! index_y ! index_x = 9 / 10 - predictions ! (index_x * 2 + index_y)))"
proof -
  have p: "(0::nat) < 2" by simp
  have sc: "scores_class (constant_model (9 / 10)) 0" by (rule constant_model_scores)
  have h: "nat \<lceil>real (shape0 (uniform_image 3 5 100)) / real 2\<rceil> = 2"
    by (simp add: shape0_def uniform_image_def ceiling_nat_div)
  have w: "nat \<lceil>real (shape1 (uniform_image 3 5 100)) / real 2\<rceil> = 3"
    by (simp add: shape1_def uniform_image_def ceiling_nat_div numeral_3_eq_3)
  from coordinates_assigned_once [OF p sc, of "uniform_image 3 5 100" fresh_run "init None"]
  obtain out w1 base predictions w2 sm assigned where
    r: "predict (constant_model (9 / 10)) [uniform_image 3 5 100] 1 fresh_run = (out, w1)"
       "target_confidence out 0 = Inr base"
       "length predictions = length (coordinates 2 3)"
       "record_deltas base (zip (coordinates 2 3) predictions) (zeros 2 3) = Inr (sm, assigned)"
       "sensitivity_grid (init None) (constant_model (9 / 10)) (uniform_image 3 5 100) 0 2
          fresh_run = Inr (sm, w2)"
       "assigned = coordinates 2 3"
       "\<forall>index_y<2. \<forall>index_x<3.
          count_list assigned (index_y, index_x) = 1 \<and>
          sm ! index_y ! index_x = base - predictions ! (index_x * 2 + index_y)"
    unfolding h w by blast
  from r(1,2) have b: "base = 9 / 10"
    by (auto simp: predict_def constant_model_def target_confidence_def)
  from r(3-7) show ?thesis
    using p sc unfolding b coordinates_2_3 by (simp only: list.size) auto
qed

section \<open>What the result does not depend on\<close>

text \<open>
  C10. \<^verbatim>\<open>explain\<close> reads only the first component of \<^verbatim>\<open>validation_data\<close>: two
  tuples with equal images and arbitrary labels give equal results.
\<close>

theorem explain_ignores_labels:
  assumes "fst validation_data = fst validation_data'"
  shows "explain self validation_data m class_index patch_size colormap
           heatmap_display grid_display w
         = explain self validation_data' m class_index patch_size colormap
             heatmap_display grid_display w"
  using assms by (cases validation_data, cases validation_data') (simp add: explain_def)

theorem explain_ignores_labels_witness:
  "fst ([uniform_image 2 2 100], Some [1::nat]) = fst ([uniform_image 2 2 100], None) \<and>
   explain (init None) ([uniform_image 2 2 100], Some [1::nat]) (constant_model (9 / 10)) 0 1
     (0::nat) (\<lambda>heatmap img colormap. heatmap) concat fresh_run
   = explain (init None) ([uniform_image 2 2 100], None) (constant_model (9 / 10)) 0 1
     (0::nat) (\<lambda>heatmap img colormap. heatmap) concat fresh_run"
proof -
  have e: "fst ([uniform_image 2 2 100], Some [1::nat]) = fst ([uniform_image 2 2 100], None)"
    by simp
  from explain_ignores_labels [OF e] show ?thesis by simp
qed
text \<open>
  C7. With a deterministic model, one whose answers do not depend on its hidden state, two
  invocations of \<^verbatim>\<open>get_sensitivity_map\<close> on the same image, class index and patch
  size return the same map (or raise the same error), whatever the runs they start from.
\<close>

theorem deterministic_model_same_map:
  assumes "deterministic m f"
  shows "outcome (get_sensitivity_map self m img class_index patch_size w1)
       = outcome (get_sensitivity_map self m img class_index patch_size w2)"
  using assms by (rule get_sensitivity_map_state_independent)

theorem deterministic_model_same_map_witness:
  "deterministic (constant_model (9 / 10)) (\<lambda>batch n. map (\<lambda>_. [9 / 10]) batch) \<and>
   outcome (get_sensitivity_map (init None) (constant_model (9 / 10)) (uniform_image 4 4 100)
              0 2 fresh_run)
   = outcome (get_sensitivity_map (init None) (constant_model (9 / 10)) (uniform_image 4 4 100)
                0 2 \<lparr>model_state = 5, calls = [([uniform_image 4 4 100], 1)]\<rparr>)"
proof -
  have d: "deterministic (constant_model (9 / 10)) (\<lambda>batch n. map (\<lambda>_. [9 / 10]) batch)"
    by (rule constant_model_deterministic)
  from deterministic_model_same_map [OF d] show ?thesis using d by blast
qed

text \<open>
  C9. For a non-empty image, a positive patch size and a model that scores the target
  class, \<^verbatim>\<open>get_sensitivity_map\<close> returns, and every inference call it has added to the
  run is on a batch of exactly one image with batch size 1. The \<^verbatim>\<open>batch_size\<close> given
  to the constructor is never read: two instances give equal results from
  \<^verbatim>\<open>get_sensitivity_map\<close> and from \<^verbatim>\<open>explain\<close>.
\<close>

theorem single_image_batches_and_batch_size_unused:
  assumes "0 < patch_size" and "scores_class m class_index"
    and "0 < shape0 img" and "0 < shape1 img"
  shows "(\<exists>out w' new.
            get_sensitivity_map (init b1) m img class_index patch_size w = Inr (out, w') \<and>
            calls w' = calls w @ new \<and>
            list_all (\<lambda>(batch, n). length batch = 1 \<and> n = 1) new) \<and>
         get_sensitivity_map (init b1) m img class_index patch_size w
           = get_sensitivity_map (init b2) m img class_index patch_size w \<and>
         explain (init b1) validation_data m class_index patch_size colormap
             heatmap_display grid_display w
           = explain (init b2) validation_data m class_index patch_size colormap
               heatmap_display grid_display w"
proof -
  let ?new = "([img], 1) #
             map (\<lambda>(iy, ix). patch_call img patch_size (ix * patch_size) (iy * patch_size))
                 (coordinates (nat \<lceil>real (shape0 img) / real patch_size\<rceil>)
                              (nat \<lceil>real (shape1 img) / real patch_size\<rceil>))"
  from get_sensitivity_map_general [OF assms, of "init b1" w] obtain out w' where
    r: "get_sensitivity_map (init b1) m img class_index patch_size w = Inr (out, w')"
       "calls w' = calls w @ ?new"
    by blast
  have "list_all (\<lambda>(batch, n). length batch = 1 \<and> n = 1) ?new"
    by (simp add: list_all_iff patch_call_def split: prod.splits)
  with r have "\<exists>out w' new.
            get_sensitivity_map (init b1) m img class_index patch_size w = Inr (out, w') \<and>
            calls w' = calls w @ new \<and>
            list_all (\<lambda>(batch, n). length batch = 1 \<and> n = 1) new"
    by blast
  then show ?thesis
    using get_sensitivity_map_self_irrelevant [of "init b1" m img class_index patch_size w "init b2"]
      explain_self_irrelevant [of "init b1" validation_data m class_index patch_size colormap
         heatmap_display grid_display w "init b2"]
    by simp
qed

theorem single_image_batches_and_batch_size_unused_witness:
  "(0::nat) < 2 \<and> scores_class (constant_model (9 / 10)) 0 \<and>
   0 < shape0 (uniform_image 3 5 100) \<and> 0 < shape1 (uniform_image 3 5 100) \<and>
   (\<exists>out w' new.
      get_sensitivity_map (init None) (constant_model (9 / 10)) (uniform_image 3 5 100) 0 2
        fresh_run = Inr (out, w') \<and>
      calls w' = calls fresh_run @ new \<and>
      list_all (\<lambda>(batch, n). length batch = 1 \<and> n = 1) new) \<and>
   get_sensitivity_map (init None) (constant_model (9 / 10)) (uniform_image 3 5 100) 0 2
        fresh_run
     = get_sensitivity_map (init (Some 32)) (constant_model (9 / 10)) (uniform_image 3 5 100)
         0 2 fresh_run \<and>
   explain (init None) ([uniform_image 3 5 100], ()) (constant_model (9 / 10)) 0 2
       (0::nat) (\<lambda>heatmap img colormap. heatmap) concat fresh_run
     = explain (init (Some 32)) ([uniform_image 3 5 100], ()) (constant_model (9 / 10)) 0 2
         (0::nat) (\<lambda>heatmap img colormap. heatmap) concat fresh_run"
proof -
  have p: "(0::nat) < 2" by simp
  have sc: "scores_class (constant_model (9 / 10)) 0" by (rule constant_model_scores)
  have h: "0 < shape0 (uniform_image 3 5 100)" by (simp add: shape0_def uniform_image_def)
  have w: "0 < shape1 (uniform_image 3 5 100)"
    by (simp add: shape1_def uniform_image_def numeral_3_eq_3)
  from single_image_batches_and_batch_size_unused [OF p sc h w, of None fresh_run "Some 32"
      "([uniform_image 3 5 100], ())" "0::nat" "\<lambda>heatmap img colormap. heatmap" concat]
  show ?thesis using p sc h w by blast
qed

section \<open>Constant models and full-image patches\<close>

text \<open>
  C3. When the model's confidence for the target class is the same constant for every
  image, then for a non-empty image and a positive patch size the map before the resize
  is all zeros and the map returned is all zeros. (The returned array has as many rows
  as the image has columns and as many columns as the image has rows; see C2.) In the
  scenario of the specification, a 4 by 4 single-channel image of value 100, confidence
  0.9 and patch size 2, the grid is 2 by 2 zeros and the result 4 by 4 zeros.
\<close>

theorem constant_model_all_zeros:
  assumes "0 < patch_size" and "gives_confidence m class_index (\<lambda>_. v)"
    and "0 < shape0 img" and "0 < shape1 img"
  shows "\<exists>w'.
           sensitivity_grid self m img class_index patch_size w
             = Inr (zeros (nat \<lceil>real (shape0 img) / real patch_size\<rceil>)
                          (nat \<lceil>real (shape1 img) / real patch_size\<rceil>), w') \<and>
           get_sensitivity_map self m img class_index patch_size w
             = Inr (zeros (shape1 img) (shape0 img), w')"
proof -
  let ?rows = "nat \<lceil>real (shape0 img) / real patch_size\<rceil>"
  let ?cols = "nat \<lceil>real (shape1 img) / real patch_size\<rceil>"
  from sensitivity_grid_confidence [OF assms(1,2), of self img w] obtain w' where
    "sensitivity_grid self m img class_index patch_size w
       = Inr (map (\<lambda>iy. map (\<lambda>ix. v - v) [0..<?cols]) [0..<?rows], w')"
    by blast
  then have g: "sensitivity_grid self m img class_index patch_size w
       = Inr (zeros ?rows ?cols, w')"
    by (simp add: zeros_def map_replicate_const)
  have "cv2_resize (zeros ?rows ?cols) (shape0 img, shape1 img)
      = Inr (zeros (shape1 img) (shape0 img))"
    using assms by (intro cv2_resize_zeros ceil_pos)
  with g show ?thesis by (simp add: get_sensitivity_map_def)
qed

theorem constant_model_all_zeros_witness:
  "(0::nat) < 2 \<and> gives_confidence (constant_model (9 / 10)) 0 (\<lambda>_. 9 / 10) \<and>
   0 < shape0 (uniform_image 4 4 100) \<and> 0 < shape1 (uniform_image 4 4 100) \<and>
   (\<exists>w'.
      sensitivity_grid (init None) (constant_model (9 / 10)) (uniform_image 4 4 100) 0 2
        fresh_run = Inr ([[0, 0], [0, 0]], w') \<and>
      get_sensitivity_map (init None) (constant_model (9 / 10)) (uniform_image 4 4 100) 0 2
        fresh_run = Inr ([[0, 0, 0, 0], [0, 0, 0, 0], [0, 0, 0, 0], [0, 0, 0, 0]], w'))"
proof -
  have p: "(0::nat) < 2" by simp
  have gc: "gives_confidence (constant_model (9 / 10)) 0 (\<lambda>_. 9 / 10)"
    by (rule constant_model_confidence)
  have s0: "shape0 (uniform_image 4 4 100) = 4" by (simp add: shape0_def uniform_image_def)
  have s1: "shape1 (uniform_image 4 4 100) = 4"
    by (simp add: shape1_def uniform_image_def numeral_eq_Suc)
  have h: "0 < shape0 (uniform_image 4 4 100)" and w: "0 < shape1 (uniform_image 4 4 100)"
    by (simp_all add: s0 s1)
  have c: "nat \<lceil>real (4::nat) / real (2::nat)\<rceil> = 2" by (simp add: ceiling_nat_div)
  have z2: "zeros 2 2 = [[0, 0], [0, 0]]" by (simp add: zeros_def numeral_eq_Suc)
  have z4: "zeros 4 4 = [[0, 0, 0, 0], [0, 0, 0, 0], [0, 0, 0, 0], [0, 0, 0, 0]]"
    by (simp add: zeros_def numeral_eq_Suc)
  from constant_model_all_zeros [OF p gc h w, of "init None" fresh_run]
  show ?thesis using p gc h w unfolding s0 s1 c z2 z4 by blast
qed

text \<open>
  C6. When the height and the width of the image both equal the patch size, the map
  before the resize has exactly one cell, and its value is the baseline confidence minus
  the confidence on the image with every pixel replaced by grey.
\<close>

theorem full_image_patch_single_cell:
  assumes "0 < patch_size" and "has_shape img patch_size patch_size"
    and "gives_confidence m class_index c"
  shows "\<exists>w'. sensitivity_grid self m img class_index patch_size w
                = Inr ([[c img - c (fully_occluded img)]], w')"
proof -
  have s0: "shape0 img = patch_size" by (rule has_shape_shape0 [OF assms(2)])
  have s1: "shape1 img = patch_size" by (rule has_shape_shape1 [OF assms(2,1)])
  from sensitivity_grid_confidence [OF assms(1,3), of self img w] obtain w' where
    "sensitivity_grid self m img class_index patch_size w
       = Inr (map (\<lambda>iy. map (\<lambda>ix. c img - c (apply_grey_patch img (iy * patch_size)
                                                  (ix * patch_size) patch_size))
                             [0..<nat \<lceil>real (shape1 img) / real patch_size\<rceil>])
                  [0..<nat \<lceil>real (shape0 img) / real patch_size\<rceil>], w')"
    by blast
  then have "sensitivity_grid self m img class_index patch_size w
       = Inr ([[c img - c (apply_grey_patch img 0 0 patch_size)]], w')"
    using assms(1) by (simp add: s0 s1)
  then show ?thesis by (simp add: apply_grey_patch_whole [OF assms(2)])
qed

theorem full_image_patch_single_cell_witness:
  "(0::nat) < 2 \<and> has_shape (uniform_image 2 2 0) 2 2 \<and>
   gives_confidence (pixel_model 0 1) 0 (pixel_confidence 0 1) \<and>
   (\<exists>w'. sensitivity_grid (init None) (pixel_model 0 1) (uniform_image 2 2 0) 0 2 fresh_run
            = Inr ([[- (1 / 2)]], w'))"
proof -
  have p: "(0::nat) < 2" by simp
  have sh: "has_shape (uniform_image 2 2 0) 2 2" by (rule uniform_image_shape)
  have gc: "gives_confidence (pixel_model 0 1) 0 (pixel_confidence 0 1)"
    by (rule pixel_model_confidence)
  have img: "uniform_image 2 2 0 = [[[0], [0]], [[0], [0]]]"
    by (simp add: uniform_image_def numeral_eq_Suc)
  have b: "pixel_confidence 0 1 (uniform_image 2 2 0) = 0"
    by (simp add: img pixel_confidence_def)
  have o: "pixel_confidence 0 1 (fully_occluded (uniform_image 2 2 0)) = 1 / 2"
    by (simp add: img pixel_confidence_def fully_occluded_def grey_value_def)
  from full_image_patch_single_cell [OF p sh gc, of "init None" fresh_run]
  show ?thesis using p sh gc unfolding b o by simp
qed
section \<open>Where the code departs from its description\<close>

text \<open>
  C1 at a concrete input: a 2 by 2 single-channel image of zeros, patch size 1, and a model
  whose confidence reads the pixel in row 0, column 1. The specification asks for the drop
  \<open>-1/2\<close> in cell (0, 1), whose region is that pixel, and for \<open>0\<close> in cell (1, 0). The
  sweep pairs \<^verbatim>\<open>top_left_x\<close> with the row index of the cell and \<^verbatim>\<open>top_left_y\<close>
  with its column index, so the map comes out transposed: \<open>0\<close> in cell (0, 1) and
  \<open>-1/2\<close> in cell (1, 0).
\<close>

theorem sweep_transposes_cells_at_2x2:
  "(\<exists>w'. sensitivity_grid (init None) (pixel_model 0 1) (uniform_image 2 2 0) 0 1 fresh_run
            = Inr ([[0, 0], [- (1 / 2), 0]], w')) \<and>
   pixel_confidence 0 1 (uniform_image 2 2 0)
     - pixel_confidence 0 1 (cell_region_occluded (uniform_image 2 2 0) 1 0 1) = - (1 / 2) \<and>
   pixel_confidence 0 1 (uniform_image 2 2 0)
     - pixel_confidence 0 1 (cell_region_occluded (uniform_image 2 2 0) 1 1 0) = 0"
proof -
  have p: "(0::nat) < 1" by simp
  have gc: "gives_confidence (pixel_model 0 1) 0 (pixel_confidence 0 1)"
    by (rule pixel_model_confidence)
  have img: "uniform_image 2 2 0 = [[[0], [0]], [[0], [0]]]"
    by (simp add: uniform_image_def numeral_eq_Suc)
  have s0: "nat \<lceil>real (shape0 (uniform_image 2 2 0)) / real 1\<rceil> = 2"
    by (simp add: img shape0_def)
  have s1: "nat \<lceil>real (shape1 (uniform_image 2 2 0)) / real 1\<rceil> = 2"
    by (simp add: img shape1_def)
  have u: "[0..<2] = [0, Suc 0]" by (simp add: upt_rec)
  have a00: "apply_grey_patch (uniform_image 2 2 0) 0 0 (Suc 0)
                = [[[255 / 2], [0]], [[0], [0]]]"
    and a01: "apply_grey_patch (uniform_image 2 2 0) 0 (Suc 0) (Suc 0)
                = [[[0], [0]], [[255 / 2], [0]]]"
    and a10: "apply_grey_patch (uniform_image 2 2 0) (Suc 0) 0 (Suc 0)
                = [[[0], [255 / 2]], [[0], [0]]]"
    and a11: "apply_grey_patch (uniform_image 2 2 0) (Suc 0) (Suc 0) (Suc 0)
                = [[[0], [0]], [[0], [255 / 2]]]"
    by (simp_all add: img apply_grey_patch_def in_patch_def grey_value_def enumerate_eq_zip
        upt_rec)
  have b: "pixel_confidence 0 1 (uniform_image 2 2 0) = 0"
    by (simp add: img pixel_confidence_def)
  from sensitivity_grid_confidence [OF p gc, of "init None" "uniform_image 2 2 0" fresh_run]
  obtain w' where "sensitivity_grid (init None) (pixel_model 0 1) (uniform_image 2 2 0) 0 1
       fresh_run
     = Inr (map (\<lambda>iy. map (\<lambda>ix. pixel_confidence 0 1 (uniform_image 2 2 0)
                 - pixel_confidence 0 1 (apply_grey_patch (uniform_image 2 2 0) (iy * 1) (ix * 1) 1))
                 [0..<2]) [0..<2], w')"
    unfolding s0 s1 by blast
  then have "sensitivity_grid (init None) (pixel_model 0 1) (uniform_image 2 2 0) 0 1 fresh_run
     = Inr ([[0, 0], [- (1 / 2), 0]], w')"
    by (simp add: u a00 a01 a10 a11 b) (simp add: pixel_confidence_def img)
  moreover have "pixel_confidence 0 1 (cell_region_occluded (uniform_image 2 2 0) 1 0 1) = 1 / 2"
    by (simp add: cell_region_occluded_def a10) (simp add: pixel_confidence_def)
  moreover have "pixel_confidence 0 1 (cell_region_occluded (uniform_image 2 2 0) 1 1 0) = 0"
    by (simp add: cell_region_occluded_def a01) (simp add: pixel_confidence_def)
  ultimately show ?thesis using b by auto
qed

text \<open>
  C2 at a concrete input: an image of height 2 and width 4. The target size handed to the
  resize is the pair (height, width), which the resize reads as (width, height): the
  array returned has 4 rows of 2 entries, not 2 rows of 4.
\<close>

theorem resized_map_transposed_shape_at_2x4:
  "\<exists>out w'.
     get_sensitivity_map (init None) (constant_model (9 / 10)) (uniform_image 2 4 100) 0 2
       fresh_run = Inr (out, w') \<and>
     has_shape out 4 2 \<and> \<not> has_shape out 2 4"
proof -
  have p: "(0::nat) < 2" by simp
  have sc: "scores_class (constant_model (9 / 10)) 0" by (rule constant_model_scores)
  have s0: "shape0 (uniform_image 2 4 100) = 2" by (simp add: shape0_def uniform_image_def)
  have s1: "shape1 (uniform_image 2 4 100) = 4"
    by (simp add: shape1_def uniform_image_def numeral_eq_Suc)
  have h: "0 < shape0 (uniform_image 2 4 100)" and w: "0 < shape1 (uniform_image 2 4 100)"
    by (simp_all add: s0 s1)
  from get_sensitivity_map_general [OF p sc h w, of "init None" fresh_run]
  obtain out w' where
    r: "get_sensitivity_map (init None) (constant_model (9 / 10)) (uniform_image 2 4 100) 0 2
          fresh_run = Inr (out, w')" and
    sh: "has_shape out 4 2"
    unfolding s0 s1 by blast
  from sh have "\<not> has_shape out 2 4" by (simp add: has_shape_def)
  with r sh show ?thesis by blast
qed
text \<open>
  C4 at a concrete input: an image of height 3 and width 5, patch size 2. The map before
  the resize has 2 rows of 3 cells and 1 + 6 inferences are made, as the specification
  says. The inferences for the cells (0, 2) and (1, 2), the sixth and the seventh call,
  are however on the image as it was given, not on an occluded image: the sweep hands
  the column offset 4 of these cells to the patch generator as the row offset, and the
  image has no row 4.
\<close>

theorem sweep_infers_on_unoccluded_image_at_3x5:
  "\<exists>grid w'.
     sensitivity_grid (init None) (constant_model (9 / 10)) (uniform_image 3 5 100) 0 2
       fresh_run = Inr (grid, w') \<and>
     has_shape grid 2 3 \<and> length (calls w') = 7 \<and>
     calls w' ! 0 = ([uniform_image 3 5 100], 1) \<and>
     calls w' ! 5 = ([uniform_image 3 5 100], 1) \<and>
     calls w' ! 6 = ([uniform_image 3 5 100], 1)"
proof -
  have p: "(0::nat) < 2" by simp
  have sc: "scores_class (constant_model (9 / 10)) 0" by (rule constant_model_scores)
  have h: "nat \<lceil>real (shape0 (uniform_image 3 5 100)) / real 2\<rceil> = 2"
    by (simp add: shape0_def uniform_image_def ceiling_nat_div)
  have w: "nat \<lceil>real (shape1 (uniform_image 3 5 100)) / real 2\<rceil> = 3"
    by (simp add: shape1_def uniform_image_def ceiling_nat_div numeral_3_eq_3)
  have len: "length (uniform_image 3 5 100) \<le> 4" by (simp add: uniform_image_def)
  have b0: "apply_grey_patch (uniform_image 3 5 100) 0 4 2 = uniform_image 3 5 100"
    and b2: "apply_grey_patch (uniform_image 3 5 100) 2 4 2 = uniform_image 3 5 100"
    by (rule apply_grey_patch_below [OF len])+
  from sensitivity_grid_general [OF p sc, of "init None" "uniform_image 3 5 100" fresh_run]
  obtain grid w' where
    r: "sensitivity_grid (init None) (constant_model (9 / 10)) (uniform_image 3 5 100) 0 2
          fresh_run = Inr (grid, w')"
       "has_shape grid 2 3"
       "calls w' = calls fresh_run @ ([uniform_image 3 5 100], 1) #
          map (\<lambda>(iy, ix). patch_call (uniform_image 3 5 100) 2 (ix * 2) (iy * 2))
              (coordinates 2 3)"
    unfolding h w by blast
  have "calls w' ! 5 = ([uniform_image 3 5 100], 1)"
    and "calls w' ! 6 = ([uniform_image 3 5 100], 1)"
    and "calls w' ! 0 = ([uniform_image 3 5 100], 1)"
    and "length (calls w') = 7"
    unfolding r(3) coordinates_2_3
    by (simp_all add: fresh_run_def patch_call_def b0 b2)
  with r(1,2) show ?thesis by blast
qed


end
